theory Spec2Isabelle
  imports Main
begin

section \<open>Enumerations of \<^verbatim>\<open>main.py\<close>\<close>

text \<open>
  \<^verbatim>\<open>class Fields(Enum)\<close>: the column names of the csv header, and
  \<^verbatim>\<open>class Tags(Enum)\<close>: the four tag tokens. The values of the tags contain the
  double quote characters: \<^verbatim>\<open>PFOO = '\"++foo\"'\<close> is the seven characters
  \<^verbatim>\<open>"++foo"\<close>.
\<close>

datatype Fields = ABS | REL | DEL | TAG

fun Fields_value :: "Fields \<Rightarrow> string" where
  "Fields_value ABS = ''abs''"
| "Fields_value REL = ''rel''"
| "Fields_value DEL = ''del''"
| "Fields_value TAG = ''tag''"

definition dquote :: char where
  "dquote = CHR 0x22"

datatype Tags = PFOO | NFOO | PBAR | NBAR

fun Tags_value :: "Tags \<Rightarrow> string" where
  "Tags_value PFOO = dquote # ''++foo'' @ [dquote]"
| "Tags_value NFOO = dquote # ''--foo'' @ [dquote]"
| "Tags_value PBAR = dquote # ''++bar'' @ [dquote]"
| "Tags_value NBAR = dquote # ''--bar'' @ [dquote]"

section \<open>Values, arrays and errors\<close>

text \<open>
  The exceptions that the modelled calls raise. \<open>OSError\<close> is the file that cannot be
  opened, \<open>ValueError\<close> is what \<^verbatim>\<open>genfromtxt\<close> raises for rows with a wrong number of
  columns, \<open>KeyError\<close> is the unknown field name of a structured array.
\<close>

datatype error = OSError | ValueError | OverflowError | KeyError | IndexError | TypeError

text \<open>A field value: a Python int (held in an \<^verbatim>\<open>i8\<close> column) or a Python str.\<close>

datatype val = IntV int | StrV string

text \<open>
  The two element types of \<^verbatim>\<open>datatypes\<close> in \<^verbatim>\<open>Data.__init__\<close>: \<^verbatim>\<open>'i8'\<close> and
  \<^verbatim>\<open>'<U25'\<close>.
\<close>

datatype dtype = I8 | U25

definition datatypes_list :: "(string \<times> dtype) list" where
  "datatypes_list =
     [(Fields_value ABS, I8), (Fields_value REL, I8), (Fields_value DEL, I8),
      (Fields_value TAG, U25)]"

text \<open>
  One element of the structured array \<^verbatim>\<open>sdata\<close>. The fields are named after the columns
  (\<open>abs\<close> is a constant of HOL, hence the prefix).
\<close>

record row =
  f_abs :: int
  f_rel :: int
  f_del :: int
  f_tag :: string

text \<open>
  A numpy array of dimension 0 or 1. \<^verbatim>\<open>genfromtxt\<close> ends with \<^verbatim>\<open>np.squeeze\<close>, so a file
  with a single data row gives a 0-dimensional array (\<open>A0\<close>), every other file a
  1-dimensional one (\<open>A1\<close>). \<open>map_array\<close> applies a function to every element and
  keeps the shape; \<open>elems\<close> are the elements in their order.
\<close>

datatype 'a array = A0 'a | A1 "'a list"

fun elems :: "'a array \<Rightarrow> 'a list" where
  "elems (A0 x) = [x]"
| "elems (A1 xs) = xs"

text \<open>
  The unstructured int64 array \<^verbatim>\<open>udata\<close>: of shape \<^verbatim>\<open>(3,)\<close> (\<open>U1\<close>) when it comes from
  a 0-dimensional structured array, of shape \<^verbatim>\<open>(n, 3)\<close> (\<open>U2\<close>) otherwise.
  \<open>nrows\<close> is \<^verbatim>\<open>len(udata)\<close>, the length of the first axis.
\<close>

datatype uarray = U1 "int list" | U2 "int list list"

fun nrows :: "uarray \<Rightarrow> nat" where
  "nrows (U1 xs) = length xs"
| "nrows (U2 xss) = length xss"

section \<open>Strings\<close>

text \<open>\<^verbatim>\<open>str.split(sep)\<close> for a separator of one character: empty pieces are kept.\<close>

fun split_on :: "char \<Rightarrow> string \<Rightarrow> string list" where
  "split_on d [] = [[]]"
| "split_on d (c # cs) =
     (if c = d then [] # split_on d cs
      else (case split_on d cs of [] \<Rightarrow> [[c]] | w # ws \<Rightarrow> (c # w) # ws))"

text \<open>\<^verbatim>\<open>str.strip(chars)\<close>: drops the characters of \<open>chars\<close> from both ends.\<close>

definition strip_chars :: "char list \<Rightarrow> string \<Rightarrow> string" where
  "strip_chars cs s =
     rev (dropWhile (\<lambda>c. c \<in> set cs) (rev (dropWhile (\<lambda>c. c \<in> set cs) s)))"

text \<open>
  The characters that \<^verbatim>\<open>int()\<close> drops as white space around a literal, among the code
  points below 256: TAB, LF, VT, FF, CR, the space, NEL and the no-break space. The
  separators \<^verbatim>\<open>0x1C\<close> to \<^verbatim>\<open>0x1F\<close> are not among them: \<^verbatim>\<open>int\<close> of such a character
  followed by a digit is a \<^verbatim>\<open>ValueError\<close>.
\<close>

definition py_whitespace :: "char list" where
  "py_whitespace =
     [CHR 0x09, CHR 0x0A, CHR 0x0B, CHR 0x0C, CHR 0x0D, CHR 0x20, CHR 0x85, CHR 0xA0]"

definition is_digit :: "char \<Rightarrow> bool" where
  "is_digit c = (48 \<le> (of_char c :: nat) \<and> (of_char c :: nat) \<le> 57)"

definition digit_val :: "char \<Rightarrow> nat" where
  "digit_val c = of_char c - 48"

text \<open>
  The digits of a decimal literal of Python: a single underscore may stand between two
  digits. \<open>digits acc s\<close> reads \<open>s\<close> after the value \<open>acc\<close> of the digits before it.
\<close>

fun digits :: "nat \<Rightarrow> string \<Rightarrow> nat option" where
  "digits acc [] = Some acc"
| "digits acc [c] = (if is_digit c then Some (10 * acc + digit_val c) else None)"
| "digits acc (c # d # cs) =
     (if is_digit c then digits (10 * acc + digit_val c) (d # cs)
      else if c = CHR ''_'' \<and> is_digit d then digits acc (d # cs)
      else None)"

definition unsigned :: "string \<Rightarrow> nat option" where
  "unsigned s = (case s of [] \<Rightarrow> None | c # _ \<Rightarrow> if is_digit c then digits 0 s else None)"

text \<open>
  \<^verbatim>\<open>int(s)\<close> in base 10: white space around the literal is dropped, one sign is allowed.
  \<open>None\<close> is the \<^verbatim>\<open>ValueError\<close> of Python.
\<close>

definition py_int :: "string \<Rightarrow> int option" where
  "py_int s =
     (case strip_chars py_whitespace s of
        [] \<Rightarrow> None
      | c # cs \<Rightarrow>
          if c = CHR ''-'' then map_option (\<lambda>n. - int n) (unsigned cs)
          else if c = CHR ''+'' then map_option int (unsigned cs)
          else map_option int (unsigned (c # cs)))"

text \<open>
  \<^verbatim>\<open>np.int64(s)\<close> on a string: the literal is read as by \<^verbatim>\<open>int\<close>, and a value that does
  not fit 64 signed bits is an \<^verbatim>\<open>OverflowError\<close>.
\<close>

definition np_int64 :: "string \<Rightarrow> error + int" where
  "np_int64 s =
     (case py_int s of
        None \<Rightarrow> Inl ValueError
      | Some v \<Rightarrow>
          if - (2 ^ 63) \<le> v \<and> v < 2 ^ 63 then Inr v else Inl OverflowError)"

text \<open>
  A fixed-width \<^verbatim>\<open>'<U25'\<close> element keeps the first 25 characters of the string stored
  into it; the buffer is padded with NUL, so NUL characters at the end are not part of
  the value that is read back. \<open>rstrip_nul\<close> is also what \<^verbatim>\<open>np.asarray\<close> does to the
  strings of a list.
\<close>

definition rstrip_nul :: "string \<Rightarrow> string" where
  "rstrip_nul s = rev (dropWhile (\<lambda>c. c = CHR 0x00) (rev s))"

definition store_U25 :: "string \<Rightarrow> string" where
  "store_U25 s = rstrip_nul (take 25 s)"

section \<open>\<^verbatim>\<open>np.genfromtxt\<close> as \<^verbatim>\<open>Data.__init__\<close> calls it\<close>

text \<open>
  The call is \<^verbatim>\<open>np.genfromtxt(filename, dtype=datatypes, delimiter=',', skip_header=1)\<close>;
  every other parameter has its default: \<^verbatim>\<open>comments='#'\<close>, \<^verbatim>\<open>autostrip=False\<close>,
  \<^verbatim>\<open>loose=True\<close>, \<^verbatim>\<open>invalid_raise=True\<close>, no \<^verbatim>\<open>usecols\<close>, no \<^verbatim>\<open>names\<close>.

  \<open>delimited_splitter\<close> is \<^verbatim>\<open>LineSplitter._delimited_splitter\<close>: the text from the first
  \<^verbatim>\<open>#\<close> on is dropped, then spaces, CR and LF at both ends of the line, and what is left
  is split at the commas; an empty rest gives no values at all.
\<close>

definition delimited_splitter :: "string \<Rightarrow> string list" where
  "delimited_splitter line =
     (let line1 = (case split_on (CHR ''#'') line of [] \<Rightarrow> [] | p # _ \<Rightarrow> p);
          line2 = strip_chars [CHR '' '', CHR 0x0D, CHR 0x0A] line1
      in if line2 = [] then [] else split_on (CHR '','') line2)"

text \<open>
  \<^verbatim>\<open>StringConverter._loose_call\<close> of the converter of one column: the conversion function
  of an \<^verbatim>\<open>i8\<close> column is \<^verbatim>\<open>np.int64\<close> and a \<^verbatim>\<open>ValueError\<close> of it gives the default
  \<open>-1\<close>; any other exception goes on. The conversion of a string column is the identity.
\<close>

definition loose_call :: "dtype \<Rightarrow> string \<Rightarrow> error + val" where
  "loose_call dt s =
     (case dt of
        I8 \<Rightarrow>
          (case np_int64 s of
             Inr v \<Rightarrow> Inr (IntV v)
           | Inl e \<Rightarrow> if e = ValueError then Inr (IntV (- 1)) else Inl e)
      | U25 \<Rightarrow> Inr (StrV s))"

text \<open>
  The loop over the lines: a line without values is skipped, a line whose number of
  values is not \<open>nbcols\<close> is recorded as invalid (by its number of values), every other
  line is a row. The result is \<^verbatim>\<open>(rows, invalid)\<close>.
\<close>

fun parse_lines :: "nat \<Rightarrow> string list \<Rightarrow> string list list \<times> nat list" where
  "parse_lines nbcols [] = ([], [])"
| "parse_lines nbcols (line # rest) =
     (let values = delimited_splitter line;
          nbvalues = length values;
          (rows, invalid) = parse_lines nbcols rest
      in if nbvalues = 0 then (rows, invalid)
         else if nbvalues \<noteq> nbcols then (rows, nbvalues # invalid)
         else (values # rows, invalid))"

text \<open>
  The conversion of one row: there is one converter for each pair of a field of the
  dtype and a column of the file (\<^verbatim>\<open>zip(dtype_flat, missing_values, filling_values)\<close>),
  so values beyond the fourth are not converted and not kept.
\<close>

fun convert_row :: "dtype list \<Rightarrow> string list \<Rightarrow> error + val list" where
  "convert_row (dt # dts) (v # vs) =
     (case loose_call dt v of
        Inl e \<Rightarrow> Inl e
      | Inr x \<Rightarrow> (case convert_row dts vs of Inl e \<Rightarrow> Inl e | Inr xs \<Rightarrow> Inr (x # xs)))"
| "convert_row _ _ = Inr []"

fun convert_rows :: "dtype list \<Rightarrow> string list list \<Rightarrow> error + val list list" where
  "convert_rows dts [] = Inr []"
| "convert_rows dts (r # rs) =
     (case convert_row dts r of
        Inl e \<Rightarrow> Inl e
      | Inr x \<Rightarrow> (case convert_rows dts rs of Inl e \<Rightarrow> Inl e | Inr xs \<Rightarrow> Inr (x # xs)))"

text \<open>
  \<^verbatim>\<open>np.array(data, dtype=...)\<close> on the converted tuples: a tuple that has not one value
  for each of the four fields is a \<^verbatim>\<open>ValueError\<close>; the string is stored into the
  \<^verbatim>\<open>'<U25'\<close> field.
\<close>

fun make_row :: "val list \<Rightarrow> error + row" where
  "make_row [IntV a, IntV r, IntV d, StrV t] =
     Inr \<lparr>f_abs = a, f_rel = r, f_del = d, f_tag = store_U25 t\<rparr>"
| "make_row _ = Inl ValueError"

fun make_rows :: "val list list \<Rightarrow> error + row list" where
  "make_rows [] = Inr []"
| "make_rows (t # ts) =
     (case make_row t of
        Inl e \<Rightarrow> Inl e
      | Inr x \<Rightarrow> (case make_rows ts of Inl e \<Rightarrow> Inl e | Inr xs \<Rightarrow> Inr (x # xs)))"

text \<open>\<^verbatim>\<open>np.squeeze\<close> on a 1-dimensional array: an axis of length one is removed.\<close>

definition squeeze :: "'a list \<Rightarrow> 'a array" where
  "squeeze xs = (case xs of [x] \<Rightarrow> A0 x | _ \<Rightarrow> A1 xs)"

text \<open>
  A file system maps a path to the lines of the file (without their line ends), or to
  \<open>None\<close> when the file cannot be opened. \<open>genfromtxt\<close> skips the header line, then the
  lines without values; the number of values of the first line with values is the
  number of columns. Invalid lines raise; the rows are converted and stored.
\<close>

definition genfromtxt :: "(string \<Rightarrow> string list option) \<Rightarrow> string \<Rightarrow> error + row array" where
  "genfromtxt fs fname =
     (case fs fname of
        None \<Rightarrow> Inl OSError
      | Some lines \<Rightarrow>
          (let fhd = dropWhile (\<lambda>l. delimited_splitter l = []) (drop 1 lines);
               nbcols = (case fhd of [] \<Rightarrow> 0 | first_line # _ \<Rightarrow> length (delimited_splitter first_line));
               converters = map snd (take nbcols datatypes_list);
               (rows, invalid) = parse_lines nbcols fhd
           in if invalid \<noteq> [] then Inl ValueError
              else (case convert_rows converters rows of
                      Inl e \<Rightarrow> Inl e
                    | Inr data \<Rightarrow>
                        (case make_rows data of
                           Inl e \<Rightarrow> Inl e
                         | Inr output \<Rightarrow> Inr (squeeze output)))))"

section \<open>Indexing of structured arrays\<close>

text \<open>The value of a field of a row, by the name of the field.\<close>

definition get_field :: "row \<Rightarrow> string \<Rightarrow> val option" where
  "get_field r n =
     (if n = Fields_value ABS then Some (IntV (f_abs r))
      else if n = Fields_value REL then Some (IntV (f_rel r))
      else if n = Fields_value DEL then Some (IntV (f_del r))
      else if n = Fields_value TAG then Some (StrV (f_tag r))
      else None)"

text \<open>
  The check of a list of field names in an index: the names are looked at in their
  order, an unknown name is a \<^verbatim>\<open>KeyError\<close>, a name seen before a \<^verbatim>\<open>ValueError\<close>.
\<close>

fun check_names :: "string list \<Rightarrow> string list \<Rightarrow> error option" where
  "check_names seen [] = None"
| "check_names seen (n # ns) =
     (if n \<notin> set (map fst datatypes_list) then Some KeyError
      else if n \<in> set seen then Some ValueError
      else check_names (n # seen) ns)"

text \<open>
  The element of the array \<^verbatim>\<open>arr[names]\<close> for one row: the named fields with their
  values, in the order of \<open>names\<close>.
\<close>

definition project :: "string list \<Rightarrow> row \<Rightarrow> (string \<times> val) list" where
  "project names r =
     concat (map (\<lambda>n. case get_field r n of None \<Rightarrow> [] | Some v \<Rightarrow> [(n, v)]) names)"

text \<open>
  \<^verbatim>\<open>arr[names]\<close> with a list of strings. The empty list is an index of integers that
  selects nothing: an empty array on one dimension, an \<^verbatim>\<open>IndexError\<close> on none.
\<close>

definition getitem_names :: "row array \<Rightarrow> string list \<Rightarrow> error + (string \<times> val) list array" where
  "getitem_names arr names =
     (if names = [] then (case arr of A0 _ \<Rightarrow> Inl IndexError | A1 _ \<Rightarrow> Inr (A1 []))
      else (case check_names [] names of
              Some e \<Rightarrow> Inl e
            | None \<Rightarrow> Inr (map_array (project names) arr)))"

text \<open>
  \<^verbatim>\<open>arr[mask]\<close> with a 1-dimensional boolean array: the elements at the true positions.
  A 0-dimensional array has no axis to index (\<^verbatim>\<open>IndexError\<close>). An empty mask selects
  nothing; any other mask must be as long as the array.
\<close>

definition getitem_mask :: "'a array \<Rightarrow> bool list \<Rightarrow> error + 'a array" where
  "getitem_mask arr msk =
     (case arr of
        A0 _ \<Rightarrow> Inl IndexError
      | A1 xs \<Rightarrow>
          if msk = [] then Inr (A1 [])
          else if length msk \<noteq> length xs then Inl IndexError
          else Inr (A1 (map fst (filter snd (zip xs msk)))))"

text \<open>
  \<^verbatim>\<open>np.in1d(ar1, ar2)\<close>: both arguments are flattened, and the result says for each
  element of \<open>ar1\<close> whether it is equal to an element of \<open>ar2\<close>. The list \<open>ar2\<close> is made
  an array first.
\<close>

definition in1d :: "string array \<Rightarrow> string list \<Rightarrow> bool list" where
  "in1d ar1 ar2 = map (\<lambda>t. t \<in> set (map rstrip_nul ar2)) (elems ar1)"

text \<open>
  \<^verbatim>\<open>rfn.structured_to_unstructured\<close> on an array whose fields are all integers: the
  shape of the result is the shape of the argument followed by the number of fields.
  A field that is a string is outside what \<^verbatim>\<open>Data.__init__\<close> passes (\<^verbatim>\<open>TypeError\<close>
  here).
\<close>

fun ints_of :: "(string \<times> val) list \<Rightarrow> int list option" where
  "ints_of [] = Some []"
| "ints_of ((n, IntV i) # xs) = map_option (\<lambda>is. i # is) (ints_of xs)"
| "ints_of ((n, StrV s) # xs) = None"

fun ints_of_all :: "(string \<times> val) list list \<Rightarrow> int list list option" where
  "ints_of_all [] = Some []"
| "ints_of_all (x # xs) =
     (case ints_of x of
        None \<Rightarrow> None
      | Some y \<Rightarrow> map_option (\<lambda>ys. y # ys) (ints_of_all xs))"

definition structured_to_unstructured :: "(string \<times> val) list array \<Rightarrow> error + uarray" where
  "structured_to_unstructured arr =
     (case arr of
        A0 x \<Rightarrow> (case ints_of x of None \<Rightarrow> Inl TypeError | Some y \<Rightarrow> Inr (U1 y))
      | A1 xs \<Rightarrow> (case ints_of_all xs of None \<Rightarrow> Inl TypeError | Some ys \<Rightarrow> Inr (U2 ys)))"

section \<open>The class \<^verbatim>\<open>Data\<close>\<close>

record Data =
  filename :: string
  sdata :: "row array"
  udata :: uarray

text \<open>
  \<^verbatim>\<open>Data.__init__\<close>: an exception of one of the three calls leaves no object.
\<close>

definition Data_init :: "(string \<Rightarrow> string list option) \<Rightarrow> string \<Rightarrow> error + Data" where
  "Data_init fs fname =
     (case genfromtxt fs fname of
        Inl e \<Rightarrow> Inl e
      | Inr sd \<Rightarrow>
          (case getitem_names sd [Fields_value ABS, Fields_value REL, Fields_value DEL] of
             Inl e \<Rightarrow> Inl e
           | Inr p \<Rightarrow>
               (case structured_to_unstructured p of
                  Inl e \<Rightarrow> Inl e
                | Inr ud \<Rightarrow> Inr \<lparr>filename = fname, sdata = sd, udata = ud\<rparr>)))"

text \<open>
  The two methods. A method of Python gets the object and may assign to its attributes,
  so each one returns its result together with the object after the call.
  \<^verbatim>\<open>filter_sdata_by_col\<close> is \<^verbatim>\<open>self.sdata[names]\<close>, \<^verbatim>\<open>filter_sdata_by_tag\<close> is
  \<^verbatim>\<open>self.sdata[np.in1d(self.sdata['tag'], values)]\<close>.
\<close>

definition filter_sdata_by_col ::
  "Data \<Rightarrow> string list \<Rightarrow> (error + (string \<times> val) list array) \<times> Data" where
  "filter_sdata_by_col self names = (getitem_names (sdata self) names, self)"

definition filter_sdata_by_tag :: "Data \<Rightarrow> string list \<Rightarrow> (error + row array) \<times> Data" where
  "filter_sdata_by_tag self values =
     (getitem_mask (sdata self) (in1d (map_array f_tag (sdata self)) values), self)"

section \<open>Rows of a file\<close>

text \<open>
  \<open>data_rows\<close> are the values of the lines after the header, the lines without values
  (empty lines, lines of blanks, comment lines) left out. \<open>row_of\<close> converts the values
  of one line with the four converters and stores them as an element of the array;
  \<open>store_rows\<close> is the end of \<^verbatim>\<open>genfromtxt\<close>, from the conversion on.
\<close>

definition data_rows :: "string list \<Rightarrow> string list list" where
  "data_rows lines = filter (\<lambda>v. v \<noteq> []) (map delimited_splitter (drop 1 lines))"

definition row_of :: "string list \<Rightarrow> error + row" where
  "row_of r =
     (case convert_row (map snd datatypes_list) r of Inl e \<Rightarrow> Inl e | Inr xs \<Rightarrow> make_row xs)"

definition store_rows :: "string list list \<Rightarrow> error + row array" where
  "store_rows rows =
     (case convert_rows
             (map snd (take (case rows of [] \<Rightarrow> 0 | r # _ \<Rightarrow> length r) datatypes_list)) rows of
        Inl e \<Rightarrow> Inl e
      | Inr data \<Rightarrow> (case make_rows data of Inl e \<Rightarrow> Inl e | Inr output \<Rightarrow> Inr (squeeze output)))"

section \<open>Notions of the specification\<close>

text \<open>
  An integer field, as a reader of the file sees it: an optional minus sign and then
  decimal digits, at least one. \<open>digit_pos\<close> is the value of a digit, its place in
  \<^verbatim>\<open>0123456789\<close>; \<open>dec_nat\<close> reads a string of digits from the left; \<open>decimal_int\<close> is
  the integer that the field writes, if it writes one; \<open>in_int64\<close> is the range of a
  signed integer of 64 bits.
\<close>

definition digit_pos :: "char \<Rightarrow> nat" where
  "digit_pos c = length (takeWhile (\<lambda>d. d \<noteq> c) ''0123456789'')"

definition dec_nat :: "string \<Rightarrow> nat" where
  "dec_nat s = foldl (\<lambda>n c. 10 * n + digit_pos c) 0 s"

definition all_digits :: "string \<Rightarrow> bool" where
  "all_digits s = (s \<noteq> [] \<and> set s \<subseteq> set ''0123456789'')"

definition decimal_int :: "string \<Rightarrow> int option" where
  "decimal_int s =
     (if all_digits s then Some (int (dec_nat s))
      else (case s of
              [] \<Rightarrow> None
            | c # ds \<Rightarrow>
                if c = CHR ''-'' \<and> all_digits ds then Some (- int (dec_nat ds)) else None))"

definition in_int64 :: "int \<Rightarrow> bool" where
  "in_int64 v = (- (2 ^ 63) \<le> v \<and> v < 2 ^ 63)"

text \<open>
  The text of a line that counts: the line without its comment (the text from the first
  \<^verbatim>\<open>#\<close> on), and without the blanks (space, CR, LF) at its two ends. \<open>after_comma\<close> is
  the text behind the first comma, so \<open>nth_field i\<close> is what stands behind comma \<open>i\<close>
  of a text, up to the next comma or the end: \<open>nth_field 3\<close> is the fourth field. A
  text with \<open>n\<close> commas has \<open>n + 1\<close> fields. The data lines of a file are the lines
  after the header that have content.
\<close>

definition is_blank :: "char \<Rightarrow> bool" where
  "is_blank c = (c = CHR '' '' \<or> c = CHR 0x0D \<or> c = CHR 0x0A)"

definition without_comment :: "string \<Rightarrow> string" where
  "without_comment s = takeWhile (\<lambda>c. c \<noteq> CHR ''#'') s"

definition rstrip_blanks :: "string \<Rightarrow> string" where
  "rstrip_blanks s = rev (dropWhile is_blank (rev s))"

definition content :: "string \<Rightarrow> string" where
  "content l = rstrip_blanks (dropWhile is_blank (without_comment l))"

definition after_comma :: "string \<Rightarrow> string" where
  "after_comma s = drop 1 (dropWhile (\<lambda>c. c \<noteq> CHR '','') s)"

fun nth_field :: "nat \<Rightarrow> string \<Rightarrow> string" where
  "nth_field 0 s = takeWhile (\<lambda>c. c \<noteq> CHR '','') s"
| "nth_field (Suc i) s = nth_field i (after_comma s)"

definition commas :: "string \<Rightarrow> nat" where
  "commas s = length (filter (\<lambda>c. c = CHR '','') s)"

definition data_lines :: "string list \<Rightarrow> string list" where
  "data_lines lines = filter (\<lambda>l. content l \<noteq> []) (drop 1 lines)"

text \<open>
  A well-formed data line, in the words of the specification: four fields with commas
  between them, of which the first three are integers of 64 bits and the last is a
  string of at most 25 characters (without a comma, which would end the field).
  \<open>record_of_fields\<close> is the record that such a line stands for: its three numbers, and
  its tag as far as the file format keeps it: up to a comment, and without blanks and
  then NUL characters at the end of the line.
\<close>

definition csv_line :: "string \<times> string \<times> string \<times> string \<Rightarrow> string" where
  "csv_line f = (case f of (a, b, c, t) \<Rightarrow> a @ '','' @ b @ '','' @ c @ '','' @ t)"



section \<open>Example files\<close>

text \<open>
  The example of the specification, a header and two data rows (\<^verbatim>\<open>data.csv\<close>); the same
  file cut after its first data row (\<^verbatim>\<open>one.csv\<close>); a file with a first field that is no
  number (\<^verbatim>\<open>loose.csv\<close>); a file whose data rows have five fields each (\<^verbatim>\<open>five.csv\<close>);
  a file with a \<^verbatim>\<open>#\<close> in one tag and blanks after another (\<^verbatim>\<open>tags.csv\<close>); a file with
  a tag of 30 characters, an empty line, a comment after a tag, a NUL after a tag and a
  comment line (\<^verbatim>\<open>long.csv\<close>); a file whose second data row has three fields
  (\<^verbatim>\<open>short.csv\<close>); a file with a number beyond 64 bits (\<^verbatim>\<open>big.csv\<close>); a file written
  from four fields for each line (\<^verbatim>\<open>fields.csv\<close>). No other path can be opened.
\<close>

definition example_lines :: "string list" where
  "example_lines =
     [''abs,rel,del,tag'', ''1,2,3,'' @ Tags_value PFOO, ''4,5,6,'' @ Tags_value NBAR]"

definition example_fields :: "(string \<times> string \<times> string \<times> string) list" where
  "example_fields =
     [(''1'', ''2'', ''3'', Tags_value PFOO), (''-40'', ''007'', ''6'', ''x y # z'')]"

definition loose_lines :: "string list" where
  "loose_lines = [''abs,rel,del,tag'', ''x,2,3,u'', ''4,5,6,v'']"

definition five_lines :: "string list" where
  "five_lines = [''abs,rel,del,tag'', ''1,2,3,x,y'', ''4,5,6,z,w'']"

definition tags_lines :: "string list" where
  "tags_lines = [''abs,rel,del,tag'', ''1,2,3,a#b'', ''4,5,6,cd  '']"

definition long_lines :: "string list" where
  "long_lines =
     [''abs,rel,del,tag'', ''1,2,3,abcdefghijklmnopqrstuvwxyz0123'', [],
      '' 4,5,6,cd  # note'', ''7,8,9,e'' @ [CHR 0x00], ''# 1,2,3,f'']"

definition short_lines :: "string list" where
  "short_lines = [''abs,rel,del,tag'', ''1,2,3,x'', ''4,5,6'']"

definition big_lines :: "string list" where
  "big_lines = [''abs,rel,del,tag'', ''9223372036854775808,2,3,x'']"

definition example_fs :: "string \<Rightarrow> string list option" where
  "example_fs =
     map_of
       [(''data.csv'', example_lines), (''one.csv'', take 2 example_lines),
        (''loose.csv'', loose_lines), (''five.csv'', five_lines),
        (''tags.csv'', tags_lines), (''long.csv'', long_lines),
        (''short.csv'', short_lines), (''big.csv'', big_lines),
        (''fields.csv'', ''abs,rel,del,tag'' # map csv_line example_fields)]"

definition row_foo :: row where
  "row_foo = \<lparr>f_abs = 1, f_rel = 2, f_del = 3, f_tag = Tags_value PFOO\<rparr>"

definition row_bar :: row where
  "row_bar = \<lparr>f_abs = 4, f_rel = 5, f_del = 6, f_tag = Tags_value NBAR\<rparr>"

definition example_data :: Data where
  "example_data =
     \<lparr>filename = ''data.csv'', sdata = A1 [row_foo, row_bar], udata = U2 [[1, 2, 3], [4, 5, 6]]\<rparr>"

definition one_row_data :: Data where
  "one_row_data = \<lparr>filename = ''one.csv'', sdata = A0 row_foo, udata = U1 [1, 2, 3]\<rparr>"

definition loose_data :: Data where
  "loose_data =
     \<lparr>filename = ''loose.csv'',
      sdata = A1 [\<lparr>f_abs = - 1, f_rel = 2, f_del = 3, f_tag = ''u''\<rparr>,
                  \<lparr>f_abs = 4, f_rel = 5, f_del = 6, f_tag = ''v''\<rparr>],
      udata = U2 [[- 1, 2, 3], [4, 5, 6]]\<rparr>"

definition five_data :: Data where
  "five_data =
     \<lparr>filename = ''five.csv'',
      sdata = A1 [\<lparr>f_abs = 1, f_rel = 2, f_del = 3, f_tag = ''x''\<rparr>,
                  \<lparr>f_abs = 4, f_rel = 5, f_del = 6, f_tag = ''z''\<rparr>],
      udata = U2 [[1, 2, 3], [4, 5, 6]]\<rparr>"

definition long_data :: Data where
  "long_data =
     \<lparr>filename = ''long.csv'',
      sdata = A1 [\<lparr>f_abs = 1, f_rel = 2, f_del = 3, f_tag = ''abcdefghijklmnopqrstuvwxy''\<rparr>,
                  \<lparr>f_abs = 4, f_rel = 5, f_del = 6, f_tag = ''cd''\<rparr>,
                  \<lparr>f_abs = 7, f_rel = 8, f_del = 9, f_tag = ''e''\<rparr>],
      udata = U2 [[1, 2, 3], [4, 5, 6], [7, 8, 9]]\<rparr>"

definition tags_data :: Data where
  "tags_data =
     \<lparr>filename = ''tags.csv'',
      sdata = A1 [\<lparr>f_abs = 1, f_rel = 2, f_del = 3, f_tag = ''a''\<rparr>,
                  \<lparr>f_abs = 4, f_rel = 5, f_del = 6, f_tag = ''cd''\<rparr>],
      udata = U2 [[1, 2, 3], [4, 5, 6]]\<rparr>"

section \<open>The rows that \<^verbatim>\<open>genfromtxt\<close> stores\<close>

lemma parse_lines_filter:
  "parse_lines n ls =
     (filter (\<lambda>v. length v = n) (filter (\<lambda>v. v \<noteq> []) (map delimited_splitter ls)),
      map length (filter (\<lambda>v. length v \<noteq> n) (filter (\<lambda>v. v \<noteq> []) (map delimited_splitter ls))))"
  by (induction ls) (auto simp: Let_def)

lemma filter_dropWhile_empty:
  "filter (\<lambda>v. v \<noteq> []) (map f (dropWhile (\<lambda>l. f l = []) ls)) = filter (\<lambda>v. v \<noteq> []) (map f ls)"
  by (induction ls) auto

lemma hd_dropWhile_empty:
  "dropWhile (\<lambda>l. f l = []) ls = l # rest \<Longrightarrow> hd (filter (\<lambda>v. v \<noteq> []) (map f ls)) = f l"
  by (induction ls) (auto split: if_splits)

lemma dropWhile_empty_Nil:
  "dropWhile (\<lambda>l. f l = []) ls = [] \<Longrightarrow> filter (\<lambda>v. v \<noteq> []) (map f ls) = []"
  by (induction ls) (auto split: if_splits)

lemma genfromtxt_rows:
  assumes "fs fname = Some lines"
  shows "genfromtxt fs fname =
     (if \<exists>r \<in> set (data_rows lines). length r \<noteq> length (hd (data_rows lines))
      then Inl ValueError else store_rows (data_rows lines))"
proof -
  define fhd where "fhd = dropWhile (\<lambda>l. delimited_splitter l = []) (drop 1 lines)"
  define nbcols where
    "nbcols = (case fhd of [] \<Rightarrow> 0 | first_line # _ \<Rightarrow> length (delimited_splitter first_line))"
  have G: "genfromtxt fs fname =
      (case parse_lines nbcols fhd of
         (rows, invalid) \<Rightarrow>
           if invalid \<noteq> [] then Inl ValueError
           else (case convert_rows (map snd (take nbcols datatypes_list)) rows of
                   Inl e \<Rightarrow> Inl e
                 | Inr data \<Rightarrow>
                     (case make_rows data of
                        Inl e \<Rightarrow> Inl e
                      | Inr output \<Rightarrow> Inr (squeeze output))))"
    unfolding genfromtxt_def fhd_def nbcols_def by (simp only: assms option.case Let_def)
  have R: "filter (\<lambda>v. v \<noteq> []) (map delimited_splitter fhd) = data_rows lines"
    unfolding data_rows_def fhd_def by (rule filter_dropWhile_empty)
  have N: "nbcols = (case data_rows lines of [] \<Rightarrow> 0 | r # _ \<Rightarrow> length r)"
  proof (cases fhd)
    case Nil
    then show ?thesis using R by (simp add: nbcols_def)
  next
    case (Cons l rest)
    then have "delimited_splitter l \<noteq> []"
      unfolding fhd_def by (metis (mono_tags, lifting) dropWhile_eq_Cons_conv)
    then have "data_rows lines =
        delimited_splitter l # filter (\<lambda>v. v \<noteq> []) (map delimited_splitter rest)"
      using R Cons by simp
    then show ?thesis using Cons by (simp add: nbcols_def)
  qed
  have P: "parse_lines nbcols fhd =
      (filter (\<lambda>v. length v = nbcols) (data_rows lines),
       map length (filter (\<lambda>v. length v \<noteq> nbcols) (data_rows lines)))"
    by (simp only: parse_lines_filter R)
  have H: "data_rows lines \<noteq> [] \<Longrightarrow> nbcols = length (hd (data_rows lines))"
    using N by (cases "data_rows lines") simp_all
  show ?thesis
  proof (cases "\<exists>r \<in> set (data_rows lines). length r \<noteq> length (hd (data_rows lines))")
    case True
    then have "data_rows lines \<noteq> []" by auto
    with True H have inv: "map length (filter (\<lambda>v. length v \<noteq> nbcols) (data_rows lines)) \<noteq> []"
      by (auto simp: filter_empty_conv)
    have E: "genfromtxt fs fname = Inl ValueError"
      unfolding G P using inv by (simp only: prod.case if_True simp_thms)
    show ?thesis unfolding E by (rule if_P [OF True, symmetric])
  next
    case False
    have F: "\<forall>r \<in> set (data_rows lines). length r = nbcols"
    proof
      fix r
      assume r: "r \<in> set (data_rows lines)"
      then have "data_rows lines \<noteq> []" by auto
      then have "nbcols = length (hd (data_rows lines))" by (rule H)
      moreover have "length r = length (hd (data_rows lines))" using False r by blast
      ultimately show "length r = nbcols" by simp
    qed
    have all: "filter (\<lambda>v. length v = nbcols) (data_rows lines) = data_rows lines"
      and none: "filter (\<lambda>v. length v \<noteq> nbcols) (data_rows lines) = []"
      using F by (simp_all add: filter_empty_conv filter_id_conv)
    have "genfromtxt fs fname =
        (case convert_rows (map snd (take nbcols datatypes_list)) (data_rows lines) of
           Inl e \<Rightarrow> Inl e
         | Inr data \<Rightarrow>
             (case make_rows data of Inl e \<Rightarrow> Inl e | Inr output \<Rightarrow> Inr (squeeze output)))"
      unfolding G P all none by simp
    also have "\<dots> = store_rows (data_rows lines)"
      unfolding store_rows_def N ..
    finally show ?thesis by (simp only: if_not_P [OF False])
  qed
qed


lemma length_convert_row:
  "convert_row dts r = Inr xs \<Longrightarrow> length xs = min (length dts) (length r)"
  by (induction dts r arbitrary: xs rule: convert_row.induct)
     (auto split: sum.splits)

lemma length_make_row: "make_row xs = Inr x \<Longrightarrow> length xs = 4"
  by (erule make_row.elims) simp_all

lemma row_of_columns:
  assumes "convert_row (map snd (take (length r) datatypes_list)) r = Inr xs"
    and "make_row xs = Inr x"
  shows "row_of r = Inr x"
proof -
  have "length xs = min (length (map snd (take (length r) datatypes_list))) (length r)"
    using assms(1) by (rule length_convert_row)
  moreover have "length xs = 4" using assms(2) by (rule length_make_row)
  ultimately have "4 \<le> length r" by (simp add: datatypes_list_def)
  then have "take (length r) datatypes_list = datatypes_list"
    by (simp add: datatypes_list_def)
  with assms show ?thesis by (simp add: row_of_def)
qed

lemma store_rows_list_all2:
  assumes "\<forall>r \<in> set rows. length r = n"
    and "convert_rows (map snd (take n datatypes_list)) rows = Inr data"
    and "make_rows data = Inr out"
  shows "list_all2 (\<lambda>r x. row_of r = Inr x) rows out"
  using assms
proof (induction rows arbitrary: data out)
  case Nil
  then show ?case by simp
next
  case (Cons r rs)
  from Cons.prems(2) obtain xs data' where
    xs: "convert_row (map snd (take n datatypes_list)) r = Inr xs"
    and data': "convert_rows (map snd (take n datatypes_list)) rs = Inr data'"
    and data: "data = xs # data'"
    by (auto split: sum.splits)
  from Cons.prems(3) data obtain x out' where
    x: "make_row xs = Inr x" and out': "make_rows data' = Inr out'" and out: "out = x # out'"
    by (auto split: sum.splits)
  have n: "length r = n" using Cons.prems(1) by simp
  have "row_of r = Inr x" using xs x unfolding n [symmetric] by (rule row_of_columns)
  moreover have "list_all2 (\<lambda>r x. row_of r = Inr x) rs out'"
    using Cons.prems(1) data' out' by (intro Cons.IH) auto
  ultimately show ?case using out by simp
qed

lemma elems_squeeze: "elems (squeeze xs) = xs"
  by (auto simp: squeeze_def split: list.splits)

lemma store_rows_Inr:
  assumes "store_rows rows = Inr arr"
    and "\<forall>r \<in> set rows. length r = length (hd rows)"
  shows "list_all2 (\<lambda>r x. row_of r = Inr x) rows (elems arr)"
proof -
  define n where "n = (case rows of [] \<Rightarrow> 0 | r # _ \<Rightarrow> length r)"
  from assms(1) obtain data out where
    d: "convert_rows (map snd (take n datatypes_list)) rows = Inr data"
    and o: "make_rows data = Inr out" and a: "arr = squeeze out"
    unfolding store_rows_def n_def by (auto split: sum.splits)
  have "\<forall>r \<in> set rows. length r = n"
  proof (cases rows)
    case Nil
    then show ?thesis by simp
  next
    case (Cons r rs)
    then show ?thesis using assms(2) by (simp add: n_def)
  qed
  then have "list_all2 (\<lambda>r x. row_of r = Inr x) rows out"
    using d o by (rule store_rows_list_all2)
  then show ?thesis by (simp add: a elems_squeeze)
qed

lemma row_of_Inr:
  assumes "row_of r = Inr x"
  shows "4 \<le> length r \<and> loose_call I8 (r ! 0) = Inr (IntV (f_abs x))
     \<and> loose_call I8 (r ! 1) = Inr (IntV (f_rel x))
     \<and> loose_call I8 (r ! 2) = Inr (IntV (f_del x))
     \<and> f_tag x = store_U25 (r ! 3)"
proof -
  from assms obtain xs where xs: "convert_row (map snd datatypes_list) r = Inr xs"
    and x: "make_row xs = Inr x"
    by (auto simp: row_of_def split: sum.splits)
  have "length xs = min (length (map snd datatypes_list)) (length r)"
    using xs by (rule length_convert_row)
  moreover have "length xs = 4" using x by (rule length_make_row)
  ultimately have "4 \<le> length r" by (simp add: datatypes_list_def)
  then obtain a b c t rest where r: "r = a # b # c # t # rest"
    by (auto simp: numeral_eq_Suc Suc_le_length_iff)
  show ?thesis using xs x unfolding r
    by (auto simp: datatypes_list_def loose_call_def split: sum.splits if_splits)
qed


lemma ints_of_project:
  "ints_of (project [Fields_value ABS, Fields_value REL, Fields_value DEL] r) =
     Some [f_abs r, f_rel r, f_del r]"
  by (simp add: project_def get_field_def)

lemma ints_of_all_project:
  "ints_of_all (map (project [Fields_value ABS, Fields_value REL, Fields_value DEL]) rs) =
     Some (map (\<lambda>r. [f_abs r, f_rel r, f_del r]) rs)"
  by (induction rs) (simp_all add: ints_of_project del: Fields_value.simps)

lemma Data_init_genfromtxt:
  "Data_init fs fname =
     (case genfromtxt fs fname of
        Inl e \<Rightarrow> Inl e
      | Inr sd \<Rightarrow>
          Inr \<lparr>filename = fname, sdata = sd,
               udata = (case sd of
                          A0 r \<Rightarrow> U1 [f_abs r, f_rel r, f_del r]
                        | A1 rs \<Rightarrow> U2 (map (\<lambda>r. [f_abs r, f_rel r, f_del r]) rs))\<rparr>)"
proof (cases "genfromtxt fs fname")
  case (Inl e)
  then show ?thesis by (simp add: Data_init_def)
next
  case (Inr sd)
  have names: "check_names [] [Fields_value ABS, Fields_value REL, Fields_value DEL] = None"
    by (simp add: datatypes_list_def)
  show ?thesis
  proof (cases sd)
    case (A0 r)
    with Inr names show ?thesis
      by (simp add: Data_init_def getitem_names_def structured_to_unstructured_def
          ints_of_project del: Fields_value.simps)
  next
    case (A1 rs)
    with Inr names show ?thesis
      by (simp add: Data_init_def getitem_names_def structured_to_unstructured_def
          ints_of_all_project del: Fields_value.simps)
  qed
qed




section \<open>The example of the specification\<close>

lemma load_example: "Data_init example_fs ''data.csv'' = Inr example_data"
  by code_simp

lemma load_one_row: "Data_init example_fs ''one.csv'' = Inr one_row_data"
  by code_simp

text \<open>
  Claim C8. The file with the lines \<^verbatim>\<open>abs,rel,del,tag\<close>, \<^verbatim>\<open>1,2,3,"++foo"\<close> and
  \<^verbatim>\<open>4,5,6,"--bar"\<close> loads as the two records \<open>(1,2,3,"++foo")\<close> and \<open>(4,5,6,"--bar")\<close> in
  this order, the numeric view is \<open>[[1,2,3],[4,5,6]]\<close>, and \<^verbatim>\<open>filter_sdata_by_tag\<close> with
  the one value \<^verbatim>\<open>"++foo"\<close> returns the first record alone.
\<close>

theorem example_scenario:
  "Data_init example_fs ''data.csv'' =
     Inr \<lparr>filename = ''data.csv'',
          sdata = A1 [\<lparr>f_abs = 1, f_rel = 2, f_del = 3, f_tag = Tags_value PFOO\<rparr>,
                      \<lparr>f_abs = 4, f_rel = 5, f_del = 6, f_tag = Tags_value NBAR\<rparr>],
          udata = U2 [[1, 2, 3], [4, 5, 6]]\<rparr>
   \<and> fst (filter_sdata_by_tag example_data [Tags_value PFOO]) =
       Inr (A1 [\<lparr>f_abs = 1, f_rel = 2, f_del = 3, f_tag = Tags_value PFOO\<rparr>])"
proof
  show "Data_init example_fs ''data.csv'' =
     Inr \<lparr>filename = ''data.csv'',
          sdata = A1 [\<lparr>f_abs = 1, f_rel = 2, f_del = 3, f_tag = Tags_value PFOO\<rparr>,
                      \<lparr>f_abs = 4, f_rel = 5, f_del = 6, f_tag = Tags_value NBAR\<rparr>],
          udata = U2 [[1, 2, 3], [4, 5, 6]]\<rparr>"
    by code_simp
  show "fst (filter_sdata_by_tag example_data [Tags_value PFOO]) =
       Inr (A1 [\<lparr>f_abs = 1, f_rel = 2, f_del = 3, f_tag = Tags_value PFOO\<rparr>])"
    by code_simp
qed

section \<open>The methods do not change the object\<close>

text \<open>
  Claim C7. \<^verbatim>\<open>filter_sdata_by_col\<close> and \<^verbatim>\<open>filter_sdata_by_tag\<close> leave the object as it
  was, for every object and every argument: \<^verbatim>\<open>sdata\<close> and \<^verbatim>\<open>udata\<close> after the call are
  \<^verbatim>\<open>sdata\<close> and \<^verbatim>\<open>udata\<close> before it.
\<close>

theorem filters_leave_data_unchanged:
  "sdata (snd (filter_sdata_by_col self names)) = sdata self
   \<and> udata (snd (filter_sdata_by_col self names)) = udata self
   \<and> sdata (snd (filter_sdata_by_tag self values)) = sdata self
   \<and> udata (snd (filter_sdata_by_tag self values)) = udata self"
  by (simp add: filter_sdata_by_col_def filter_sdata_by_tag_def)

section \<open>Selection of columns\<close>

lemma field_names: 
  "set (map fst datatypes_list) =
     {Fields_value ABS, Fields_value REL, Fields_value DEL, Fields_value TAG}"
  by (simp add: datatypes_list_def)

lemma check_names_unknown:
  "distinct names \<Longrightarrow> set seen \<inter> set names = {} \<Longrightarrow>
   \<exists>n \<in> set names. n \<notin> set (map fst datatypes_list) \<Longrightarrow>
   check_names seen names = Some KeyError"
proof (induction names arbitrary: seen)
  case Nil
  then show ?case by simp
next
  case (Cons n ns)
  show ?case
  proof (cases "n \<in> set (map fst datatypes_list)")
    case False
    then show ?thesis by simp
  next
    case True
    have fresh: "n \<notin> set seen" using Cons.prems(2) by auto
    have rest: "\<exists>m \<in> set ns. m \<notin> set (map fst datatypes_list)"
      using Cons.prems(3) True by auto
    have "check_names (n # seen) ns = Some KeyError"
      using Cons.prems(1) Cons.prems(2) rest by (intro Cons.IH) auto
    with True fresh show ?thesis by simp
  qed
qed

lemma check_names_known:
  "distinct names \<Longrightarrow> set seen \<inter> set names = {} \<Longrightarrow>
   set names \<subseteq> set (map fst datatypes_list) \<Longrightarrow>
   check_names seen names = None"
proof (induction names arbitrary: seen)
  case Nil
  then show ?case by simp
next
  case (Cons n ns)
  have known: "n \<in> set (map fst datatypes_list)" using Cons.prems(3) by simp
  have fresh: "n \<notin> set seen" using Cons.prems(2) by auto
  have "check_names (n # seen) ns = None"
    using Cons.prems by (intro Cons.IH) auto
  with known fresh show ?case by simp
qed

lemma project_known:
  "set names \<subseteq> set (map fst datatypes_list) \<Longrightarrow>
   project names r =
     map (\<lambda>n. (n, if n = Fields_value ABS then IntV (f_abs r)
                  else if n = Fields_value REL then IntV (f_rel r)
                  else if n = Fields_value DEL then IntV (f_del r)
                  else StrV (f_tag r))) names"
proof (induction names)
  case Nil
  then show ?case by (simp add: project_def)
next
  case (Cons n ns)
  have "project ns r =
     map (\<lambda>n. (n, if n = Fields_value ABS then IntV (f_abs r)
                  else if n = Fields_value REL then IntV (f_rel r)
                  else if n = Fields_value DEL then IntV (f_del r)
                  else StrV (f_tag r))) ns"
    using Cons by simp
  moreover have "n \<in> set (map fst datatypes_list)" using Cons.prems by simp
  ultimately show ?case
    by (auto simp: project_def get_field_def datatypes_list_def)
qed

lemma elems_map_array: "elems (map_array f arr) = map f (elems arr)"
  by (cases arr) simp_all

text \<open>
  Claim C5. With a list of distinct field names of which one is not among \<open>abs\<close>,
  \<open>rel\<close>, \<open>del\<close>, \<open>tag\<close>, \<^verbatim>\<open>filter_sdata_by_col\<close> fails with the \<^verbatim>\<open>KeyError\<close> of the
  unknown field. With a list of distinct known names that is not empty, it returns an
  array of the shape of \<^verbatim>\<open>sdata\<close> with one entry for each row, in the order of the
  rows; the entry of a row holds, for each requested name and in the order of the
  request, the name with the value of that field of the row, and nothing else.
\<close>

theorem filter_sdata_by_col_fields:
  "(distinct names \<and>
      (\<exists>n \<in> set names.
         n \<notin> {Fields_value ABS, Fields_value REL, Fields_value DEL, Fields_value TAG})
    \<longrightarrow> fst (filter_sdata_by_col self names) = Inl KeyError)
   \<and> (distinct names \<and> names \<noteq> [] \<and>
        set names \<subseteq> {Fields_value ABS, Fields_value REL, Fields_value DEL, Fields_value TAG}
    \<longrightarrow> fst (filter_sdata_by_col self names) =
          Inr (map_array
                 (\<lambda>r. map (\<lambda>n. (n, if n = Fields_value ABS then IntV (f_abs r)
                                    else if n = Fields_value REL then IntV (f_rel r)
                                    else if n = Fields_value DEL then IntV (f_del r)
                                    else StrV (f_tag r))) names)
                 (sdata self)))"
proof (intro conjI impI)
  assume a: "distinct names \<and>
      (\<exists>n \<in> set names.
         n \<notin> {Fields_value ABS, Fields_value REL, Fields_value DEL, Fields_value TAG})"
  then have ne: "names \<noteq> []" by auto
  have "check_names [] names = Some KeyError"
    using a by (intro check_names_unknown) (simp_all only: field_names set_simps Int_empty_left)
  with ne show "fst (filter_sdata_by_col self names) = Inl KeyError"
    by (simp add: filter_sdata_by_col_def getitem_names_def)
next
  assume a: "distinct names \<and> names \<noteq> [] \<and>
        set names \<subseteq> {Fields_value ABS, Fields_value REL, Fields_value DEL, Fields_value TAG}"
  then have sub: "set names \<subseteq> set (map fst datatypes_list)"
    by (simp only: field_names)
  have "check_names [] names = None"
    using a sub by (intro check_names_known) simp_all
  with a have res: "fst (filter_sdata_by_col self names) =
      Inr (map_array (project names) (sdata self))"
    by (simp add: filter_sdata_by_col_def getitem_names_def)
  have "project names =
      (\<lambda>r. map (\<lambda>n. (n, if n = Fields_value ABS then IntV (f_abs r)
                         else if n = Fields_value REL then IntV (f_rel r)
                         else if n = Fields_value DEL then IntV (f_del r)
                         else StrV (f_tag r))) names)"
    by (rule ext) (rule project_known [OF sub])
  with res show "fst (filter_sdata_by_col self names) =
          Inr (map_array
                 (\<lambda>r. map (\<lambda>n. (n, if n = Fields_value ABS then IntV (f_abs r)
                                    else if n = Fields_value REL then IntV (f_rel r)
                                    else if n = Fields_value DEL then IntV (f_del r)
                                    else StrV (f_tag r))) names)
                 (sdata self))"
    by (simp only:)
qed

theorem filter_sdata_by_col_fields_witness:
  "fst (filter_sdata_by_col example_data [''abs'', ''nonexistent'']) = Inl KeyError
   \<and> fst (filter_sdata_by_col example_data [''tag'', ''abs'']) =
       Inr (A1 [[(''tag'', StrV (Tags_value PFOO)), (''abs'', IntV 1)],
                [(''tag'', StrV (Tags_value NBAR)), (''abs'', IntV 4)]])
   \<and> fst (filter_sdata_by_col one_row_data [''del'', ''rel'']) =
       Inr (A0 [(''del'', IntV 3), (''rel'', IntV 2)])"
proof (intro conjI)
  have "distinct [''abs'', ''nonexistent''] \<and>
      (\<exists>n \<in> set [''abs'', ''nonexistent''].
         n \<notin> {Fields_value ABS, Fields_value REL, Fields_value DEL, Fields_value TAG})"
    by simp
  then show "fst (filter_sdata_by_col example_data [''abs'', ''nonexistent'']) = Inl KeyError"
    using filter_sdata_by_col_fields [of "[''abs'', ''nonexistent'']" example_data] by blast
next
  have h: "distinct [''tag'', ''abs''] \<and> [''tag'', ''abs''] \<noteq> [] \<and>
      set [''tag'', ''abs''] \<subseteq>
        {Fields_value ABS, Fields_value REL, Fields_value DEL, Fields_value TAG}"
    by simp
  show "fst (filter_sdata_by_col example_data [''tag'', ''abs'']) =
       Inr (A1 [[(''tag'', StrV (Tags_value PFOO)), (''abs'', IntV 1)],
                [(''tag'', StrV (Tags_value NBAR)), (''abs'', IntV 4)]])"
    using h filter_sdata_by_col_fields [of "[''tag'', ''abs'']" example_data]
    by (simp add: example_data_def row_foo_def row_bar_def)
next
  have h: "distinct [''del'', ''rel''] \<and> [''del'', ''rel''] \<noteq> [] \<and>
      set [''del'', ''rel''] \<subseteq>
        {Fields_value ABS, Fields_value REL, Fields_value DEL, Fields_value TAG}"
    by simp
  show "fst (filter_sdata_by_col one_row_data [''del'', ''rel'']) =
       Inr (A0 [(''del'', IntV 3), (''rel'', IntV 2)])"
    using h filter_sdata_by_col_fields [of "[''del'', ''rel'']" one_row_data]
    by (simp add: one_row_data_def row_foo_def)
qed

text \<open>
  Claim C10. \<^verbatim>\<open>filter_sdata_by_col\<close> with the four names \<open>abs\<close>, \<open>rel\<close>, \<open>del\<close>, \<open>tag\<close> in
  this order returns an array of the shape of \<^verbatim>\<open>sdata\<close> whose entries are the rows of
  \<^verbatim>\<open>sdata\<close>, field by field.
\<close>

theorem filter_sdata_by_col_all_fields:
  "fst (filter_sdata_by_col self
          [Fields_value ABS, Fields_value REL, Fields_value DEL, Fields_value TAG]) =
     Inr (map_array
            (\<lambda>r. [(Fields_value ABS, IntV (f_abs r)), (Fields_value REL, IntV (f_rel r)),
                   (Fields_value DEL, IntV (f_del r)), (Fields_value TAG, StrV (f_tag r))])
            (sdata self))"
proof -
  have "project [Fields_value ABS, Fields_value REL, Fields_value DEL, Fields_value TAG] =
      (\<lambda>r. [(Fields_value ABS, IntV (f_abs r)), (Fields_value REL, IntV (f_rel r)),
            (Fields_value DEL, IntV (f_del r)), (Fields_value TAG, StrV (f_tag r))])"
    by (rule ext) (simp add: project_def get_field_def)
  then show ?thesis
    by (simp add: filter_sdata_by_col_def getitem_names_def datatypes_list_def)
qed

section \<open>The numeric view\<close>

lemma numeric_view_rows:
  assumes "Data_init fs fname = Inr d" and "sdata d = A1 rs"
  shows "udata d = U2 (map (\<lambda>r. [f_abs r, f_rel r, f_del r]) rs)"
  using assms by (auto simp: Data_init_genfromtxt split: sum.splits)

lemma numeric_view_single:
  assumes "Data_init fs fname = Inr d" and "sdata d = A0 r"
  shows "udata d = U1 [f_abs r, f_rel r, f_del r]"
  using assms by (auto simp: Data_init_genfromtxt split: sum.splits)

text \<open>
  Claim C2. The numeric view has as many rows as there are records, and its row \<open>i\<close> is
  the triple \<open>(abs, rel, del)\<close> of record \<open>i\<close>. This holds for every array of records
  on one dimension (\<open>numeric_view_rows\<close>). The file with one data row loads as an array
  without dimension, and its numeric view is the one-dimensional \<open>[1, 2, 3]\<close>: three
  entries that are numbers, for one record.
\<close>

theorem one_row_numeric_view:
  "Data_init example_fs ''one.csv'' = Inr one_row_data
   \<and> elems (sdata one_row_data) = [row_foo]
   \<and> udata one_row_data = U1 [1, 2, 3]
   \<and> nrows (udata one_row_data) = 3"
  using load_one_row by (simp add: one_row_data_def)

section \<open>Selection of rows by tag\<close>

lemma filter_zip_map: "map fst (filter snd (zip xs (map P xs))) = filter P xs"
  by (induction xs) simp_all

lemma filter_sdata_by_tag_rows:
  assumes "sdata self = A1 rs"
  shows "fst (filter_sdata_by_tag self values) =
     Inr (A1 (filter (\<lambda>r. f_tag r \<in> set (map rstrip_nul values)) rs))"
proof -
  have "map fst (filter snd (zip rs (map (\<lambda>r. f_tag r \<in> set (map rstrip_nul values)) rs))) =
      filter (\<lambda>r. f_tag r \<in> set (map rstrip_nul values)) rs"
    by (rule filter_zip_map)
  then show ?thesis using assms
    by (simp add: filter_sdata_by_tag_def getitem_mask_def in1d_def comp_def)
qed

lemma filter_sdata_by_no_tag_rows:
  assumes "sdata self = A1 rs"
  shows "fst (filter_sdata_by_tag self []) = Inr (A1 [])"
  using assms by (simp add: filter_sdata_by_tag_rows)

lemma filter_sdata_by_tag_single:
  assumes "sdata self = A0 r"
  shows "fst (filter_sdata_by_tag self values) = Inl IndexError"
  using assms by (simp add: filter_sdata_by_tag_def getitem_mask_def)

text \<open>
  Claim C4. \<^verbatim>\<open>filter_sdata_by_tag\<close> returns the rows whose tag is one of the given
  values, whole and in their order, and no row when none has such a tag. This holds for
  every array of records on one dimension (\<open>filter_sdata_by_tag_rows\<close>). On the data of
  the file with one data row the call raises an \<^verbatim>\<open>IndexError\<close>, whatever the values.
\<close>

theorem one_row_filter_by_tag:
  "Data_init example_fs ''one.csv'' = Inr one_row_data
   \<and> fst (filter_sdata_by_tag one_row_data [Tags_value PFOO]) = Inl IndexError"
  using load_one_row by (simp add: one_row_data_def filter_sdata_by_tag_single)

text \<open>
  Claim C9. \<^verbatim>\<open>filter_sdata_by_tag\<close> with no value returns no row and raises nothing.
  This holds for every array of records on one dimension
  (\<open>filter_sdata_by_no_tag_rows\<close>). On the data of the file with one data row the call
  raises an \<^verbatim>\<open>IndexError\<close>.
\<close>

theorem one_row_filter_by_no_tag:
  "Data_init example_fs ''one.csv'' = Inr one_row_data
   \<and> fst (filter_sdata_by_tag one_row_data []) = Inl IndexError"
  using load_one_row by (simp add: one_row_data_def filter_sdata_by_tag_single)

section \<open>The rows of a loaded file\<close>

lemma genfromtxt_Inr:
  assumes "fs fname = Some lines" and "genfromtxt fs fname = Inr arr"
  shows "list_all2 (\<lambda>r x. row_of r = Inr x) (data_rows lines) (elems arr)"
proof -
  note G = genfromtxt_rows [of fs fname lines, OF assms(1)]
  have same: "\<forall>r \<in> set (data_rows lines). length r = length (hd (data_rows lines))"
  proof (rule ccontr)
    assume "\<not> ?thesis"
    then have "\<exists>r \<in> set (data_rows lines). length r \<noteq> length (hd (data_rows lines))"
      by blast
    then have "genfromtxt fs fname = Inl ValueError"
      unfolding G by (rule if_P)
    with assms(2) show False by simp
  qed
  then have "store_rows (data_rows lines) = Inr arr"
    using assms(2) unfolding G by (simp only: if_not_P bex_simps not_not)
  then show ?thesis using same by (rule store_rows_Inr)
qed

lemma Data_init_Inr:
  assumes "Data_init fs fname = Inr d"
  shows "genfromtxt fs fname = Inr (sdata d)"
  using assms by (auto simp: Data_init_genfromtxt split: sum.splits)

lemma loaded_rows:
  assumes "fs fname = Some lines" and "Data_init fs fname = Inr d"
  shows "list_all2 (\<lambda>r x. row_of r = Inr x) (data_rows lines) (elems (sdata d))"
  using assms(1) Data_init_Inr [OF assms(2)] by (rule genfromtxt_Inr)

section \<open>Decimal fields\<close>

lemma digit_chars:
  "c \<in> set ''0123456789'' \<Longrightarrow> is_digit c \<and> digit_val c = digit_pos c"
proof -
  assume "c \<in> set ''0123456789''"
  then consider "c = CHR ''0''" | "c = CHR ''1''" | "c = CHR ''2''" | "c = CHR ''3''"
    | "c = CHR ''4''" | "c = CHR ''5''" | "c = CHR ''6''" | "c = CHR ''7''"
    | "c = CHR ''8''" | "c = CHR ''9''"
    by auto
  then show ?thesis
    by cases (simp_all add: is_digit_def digit_val_def digit_pos_def)
qed

lemma digits_foldl:
  "set s \<subseteq> set ''0123456789'' \<Longrightarrow>
   digits acc s = Some (foldl (\<lambda>n c. 10 * n + digit_pos c) acc s)"
proof (induction acc s rule: digits.induct)
  case (1 acc)
  then show ?case by simp
next
  case (2 acc c)
  then have "c \<in> set ''0123456789''" by simp
  then show ?case using digit_chars [of c] by simp
next
  case (3 acc c d cs)
  from "3.prems" have c: "c \<in> set ''0123456789''" by simp
  from "3.prems" have rest: "set (d # cs) \<subseteq> set ''0123456789''" by simp
  have dc: "is_digit c" "digit_val c = digit_pos c" using digit_chars [OF c] by simp_all
  have "digits (10 * acc + digit_val c) (d # cs) =
      Some (foldl (\<lambda>n c. 10 * n + digit_pos c) (10 * acc + digit_val c) (d # cs))"
    using dc(1) rest by (rule "3.IH"(1))
  then show ?case using dc by simp
qed

lemma unsigned_all_digits: "all_digits s \<Longrightarrow> unsigned s = Some (dec_nat s)"
proof -
  assume a: "all_digits s"
  then obtain c cs where s: "s = c # cs" by (cases s) (auto simp: all_digits_def)
  from a have sub: "set s \<subseteq> set ''0123456789''" by (simp add: all_digits_def)
  then have "c \<in> set ''0123456789''" using s by simp
  then have "is_digit c" using digit_chars by blast
  moreover have "digits 0 s = Some (dec_nat s)"
    unfolding dec_nat_def using sub by (rule digits_foldl)
  ultimately show ?thesis using s by (simp add: unsigned_def)
qed

lemma dropWhile_id: "(\<And>c. c \<in> set s \<Longrightarrow> \<not> P c) \<Longrightarrow> dropWhile P s = s"
  by (cases s) simp_all

lemma strip_chars_id:
  assumes "set s \<inter> set cs = {}"
  shows "strip_chars cs s = s"
proof -
  have 1: "dropWhile (\<lambda>c. c \<in> set cs) s = s"
    using assms by (intro dropWhile_id) auto
  have 2: "dropWhile (\<lambda>c. c \<in> set cs) (rev s) = rev s"
    using assms by (intro dropWhile_id) auto
  show ?thesis by (simp add: strip_chars_def 1 2)
qed

lemma decimal_int_cases:
  assumes "decimal_int s = Some v"
  shows "(all_digits s \<and> v = int (dec_nat s))
     \<or> (\<exists>ds. s = CHR ''-'' # ds \<and> all_digits ds \<and> v = - int (dec_nat ds))"
proof (cases "all_digits s")
  case True
  with assms show ?thesis by (simp add: decimal_int_def)
next
  case False
  show ?thesis
  proof (cases s)
    case Nil
    with assms False show ?thesis by (simp add: decimal_int_def)
  next
    case (Cons c ds)
    with assms False show ?thesis by (simp add: decimal_int_def split: if_splits)
  qed
qed

lemma digits_subset: "set ''0123456789'' \<subseteq> set ''-0123456789''"
  by (simp add: subset_insertI)

lemma decimal_chars:
  assumes "decimal_int s = Some v"
  shows "s \<noteq> [] \<and> set s \<subseteq> set ''-0123456789''"
  using decimal_int_cases [OF assms]
proof
  assume "all_digits s \<and> v = int (dec_nat s)"
  then have "all_digits s" by (rule conjunct1)
  then have ne: "s \<noteq> []" and sub: "set s \<subseteq> set ''0123456789''"
    unfolding all_digits_def by (rule conjunct1, rule conjunct2)
  have "set s \<subseteq> set ''-0123456789''" using sub digits_subset by (rule subset_trans)
  with ne show ?thesis by (rule conjI)
next
  assume "\<exists>ds. s = CHR ''-'' # ds \<and> all_digits ds \<and> v = - int (dec_nat ds)"
  then obtain ds where s: "s = CHR ''-'' # ds" and ds: "all_digits ds" by blast
  from ds have sub: "set ds \<subseteq> set ''0123456789''"
    unfolding all_digits_def by (rule conjunct2)
  have "set ds \<subseteq> set ''-0123456789''" using sub digits_subset by (rule subset_trans)
  moreover have "CHR ''-'' \<in> set ''-0123456789''" by simp
  ultimately have "set (CHR ''-'' # ds) \<subseteq> set ''-0123456789''"
    by (simp only: set_simps insert_subset)
  then show ?thesis unfolding s by simp
qed

lemma decimal_no_whitespace: "set ''-0123456789'' \<inter> set py_whitespace = {}"
  by (simp add: py_whitespace_def)

lemma minus_plus_no_digit:
  "CHR ''-'' \<notin> set ''0123456789''" "CHR ''+'' \<notin> set ''0123456789''"
  by simp_all

lemma py_int_decimal:
  assumes "decimal_int s = Some v"
  shows "py_int s = Some v"
proof -
  have "set s \<subseteq> set ''-0123456789''" using decimal_chars [OF assms] by (rule conjunct2)
  then have "set s \<inter> set py_whitespace = {}"
    using decimal_no_whitespace by blast
  then have strip: "strip_chars py_whitespace s = s" by (rule strip_chars_id)
  from decimal_int_cases [OF assms] show ?thesis
  proof
    assume a: "all_digits s \<and> v = int (dec_nat s)"
    then obtain c cs where s: "s = c # cs" by (cases s) (simp_all add: all_digits_def)
    from a s have "c \<in> set ''0123456789''" by (simp add: all_digits_def)
    then have c: "c \<noteq> CHR ''-''" "c \<noteq> CHR ''+''"
      using minus_plus_no_digit by blast+
    have u: "unsigned (c # cs) = Some (dec_nat s)"
      using unsigned_all_digits [of s] a s by simp
    have "py_int s = map_option int (unsigned (c # cs))"
      unfolding py_int_def strip unfolding s using c by simp
    then show ?thesis using u a by simp
  next
    assume "\<exists>ds. s = CHR ''-'' # ds \<and> all_digits ds \<and> v = - int (dec_nat ds)"
    then obtain ds where s: "s = CHR ''-'' # ds" and ds: "all_digits ds"
      and v: "v = - int (dec_nat ds)" by blast
    have u: "unsigned ds = Some (dec_nat ds)" using ds by (rule unsigned_all_digits)
    have "py_int s = map_option (\<lambda>n. - int n) (unsigned ds)"
      unfolding py_int_def strip unfolding s by simp
    then show ?thesis using u v by simp
  qed
qed

lemma np_int64_decimal:
  assumes "decimal_int s = Some v"
  shows "np_int64 s = (if in_int64 v then Inr v else Inl OverflowError)"
proof -
  have "py_int s = Some v" using assms by (rule py_int_decimal)
  then show ?thesis unfolding np_int64_def in_int64_def by (simp only: option.case)
qed

section \<open>Well-formed files\<close>

lemma split_on_not_Nil: "split_on d s \<noteq> []"
  by (induction s) (auto split: list.splits)

lemma split_on_hd: "(case split_on d s of [] \<Rightarrow> [] | p # _ \<Rightarrow> p) = takeWhile (\<lambda>c. c \<noteq> d) s"
  by (induction s) (auto split: list.splits)

lemma split_on_none: "d \<notin> set t \<Longrightarrow> split_on d t = [t]"
  by (induction t) auto



lemma blanks_is_blank: "(\<lambda>c. c \<in> set [CHR '' '', CHR 0x0D, CHR 0x0A]) = is_blank"
  by (rule ext) (auto simp: is_blank_def)

lemma delimited_splitter_content:
  "delimited_splitter l = (if content l = [] then [] else split_on (CHR '','') (content l))"
  unfolding delimited_splitter_def split_on_hd strip_chars_def blanks_is_blank Let_def
    content_def rstrip_blanks_def without_comment_def ..















section \<open>Fields and commas\<close>

lemma split_on_unfold:
  "split_on d s =
     (if d \<in> set s
      then takeWhile (\<lambda>c. c \<noteq> d) s # split_on d (drop 1 (dropWhile (\<lambda>c. c \<noteq> d) s))
      else [s])"
proof (induction s)
  case Nil
  then show ?case by simp
next
  case (Cons c cs)
  show ?case
  proof (cases "c = d")
    case True
    then show ?thesis by simp
  next
    case False
    then show ?thesis using Cons.IH by (auto split: list.splits)
  qed
qed

lemma commas_after_comma:
  assumes "CHR '','' \<in> set s"
  shows "commas s = Suc (commas (after_comma s))"
proof -
  let ?P = "\<lambda>c. c \<noteq> CHR '',''"
  have "dropWhile ?P s \<noteq> []" using assms by (simp add: dropWhile_eq_Nil_conv)
  then obtain x rest where d: "dropWhile ?P s = x # rest" by (cases "dropWhile ?P s") auto
  then have "\<not> ?P x" using hd_dropWhile [of ?P s] by (metis list.sel(1) list.simps(3))
  then have x: "x = CHR '',''" by simp
  have s: "s = takeWhile ?P s @ CHR '','' # rest"
    using takeWhile_dropWhile_id [of ?P s] d x by simp
  have tw: "filter (\<lambda>c. c = CHR '','') (takeWhile ?P s) = []"
    by (auto simp: filter_empty_conv dest: set_takeWhileD)
  have "commas s = commas (takeWhile ?P s @ CHR '','' # rest)" using s by simp
  also have "\<dots> = Suc (commas rest)" using tw by (simp add: commas_def)
  also have "rest = after_comma s" by (simp add: after_comma_def d)
  finally show ?thesis .
qed

lemma commas_zero: "CHR '','' \<notin> set s \<Longrightarrow> commas s = 0"
  by (auto simp: commas_def filter_empty_conv)

lemma length_split_on: "length (split_on (CHR '','') s) = Suc (commas s)"
proof (induction "commas s" arbitrary: s)
  case 0
  then have "CHR '','' \<notin> set s"
    using commas_after_comma [of s] by auto
  then show ?case using 0 by (simp add: split_on_none)
next
  case (Suc n)
  then have in_s: "CHR '','' \<in> set s" using commas_zero [of s] by auto
  then have c: "commas s = Suc (commas (after_comma s))" by (rule commas_after_comma)
  with Suc.hyps(2) have "n = commas (after_comma s)" by simp
  then have "length (split_on (CHR '','') (after_comma s)) = Suc (commas (after_comma s))"
    by (rule Suc.hyps(1))
  then show ?case using in_s c
    by (subst split_on_unfold) (simp add: after_comma_def)
qed

lemma split_on_nth:
  "i \<le> commas s \<Longrightarrow> split_on (CHR '','') s ! i = nth_field i s"
proof (induction i arbitrary: s)
  case 0
  show ?case
  proof (cases "CHR '','' \<in> set s")
    case True
    then show ?thesis by (subst split_on_unfold) simp
  next
    case False
    from False have "\<forall>x \<in> set s. x \<noteq> CHR '',''" by auto
    then have tw: "takeWhile (\<lambda>c. c \<noteq> CHR '','') s = s"
      by (rule takeWhile_eq_all_conv [THEN iffD2])
    show ?thesis
      by (simp only: split_on_none [OF False] nth_field.simps tw nth_Cons_0)
  qed
next
  case (Suc i)
  then have in_s: "CHR '','' \<in> set s" using commas_zero [of s] by auto
  then have "commas s = Suc (commas (after_comma s))" by (rule commas_after_comma)
  with Suc.prems have "i \<le> commas (after_comma s)" by simp
  then have "split_on (CHR '','') (after_comma s) ! i = nth_field i (after_comma s)"
    by (rule Suc.IH)
  then show ?case using in_s
    by (subst split_on_unfold) (simp add: after_comma_def)
qed

lemma delimited_splitter_Nil: "(delimited_splitter l = []) = (content l = [])"
  by (simp add: delimited_splitter_content split_on_not_Nil)

lemma data_rows_lines: "data_rows lines = map delimited_splitter (data_lines lines)"
  unfolding data_rows_def data_lines_def
  by (induction "drop 1 lines") (simp_all add: filter_map comp_def delimited_splitter_Nil)

lemma length_delimited_splitter:
  "content l \<noteq> [] \<Longrightarrow> length (delimited_splitter l) = Suc (commas (content l))"
  by (simp add: delimited_splitter_content length_split_on)

lemma delimited_splitter_nth:
  "content l \<noteq> [] \<Longrightarrow> i \<le> commas (content l) \<Longrightarrow>
   delimited_splitter l ! i = nth_field i (content l)"
  by (simp add: delimited_splitter_content split_on_nth)

section \<open>Files that do not load\<close>

lemma loaded_data_lines:
  assumes "fs fname = Some lines" and "Data_init fs fname = Inr d"
  shows "list_all2 (\<lambda>l x. row_of (delimited_splitter l) = Inr x)
           (data_lines lines) (elems (sdata d))"
  using loaded_rows [OF assms] unfolding data_rows_lines list_all2_map1 .

lemma data_lines_content: "l \<in> set (data_lines lines) \<Longrightarrow> content l \<noteq> []"
  by (simp add: data_lines_def)

lemma loaded_line:
  assumes "fs fname = Some lines" and "Data_init fs fname = Inr d"
    and "l \<in> set (data_lines lines)"
  shows "\<exists>x. row_of (delimited_splitter l) = Inr x"
proof -
  have "list_all2 (\<lambda>l x. row_of (delimited_splitter l) = Inr x)
      (data_lines lines) (elems (sdata d))"
    using assms(1,2) by (rule loaded_data_lines)
  with assms(3) show ?thesis
    by (auto simp: list_all2_conv_all_nth in_set_conv_nth)
qed

lemma loose_call_overflow:
  "np_int64 s = Inl OverflowError \<Longrightarrow> loose_call I8 s = Inl OverflowError"
  by (simp add: loose_call_def)

text \<open>
  A field that is no number does not stop the load, and neither do five fields in
  every line, an empty line or a comment line: the file \<^verbatim>\<open>loose.csv\<close> has the data
  line \<^verbatim>\<open>x,2,3,u\<close> and loads with \<open>-1\<close> in the place of \<open>x\<close>; the file \<^verbatim>\<open>five.csv\<close>
  has two data lines of five fields and loads as two records of the first four; the
  file \<^verbatim>\<open>long.csv\<close> has an empty line and a comment line and loads as the records of
  its three other lines.
\<close>

theorem load_despite_bad_fields:
  "split_on (CHR '','') ''x,2,3,u'' = [''x'', ''2'', ''3'', ''u'']
   \<and> decimal_int ''x'' = None
   \<and> np_int64 ''x'' = Inl ValueError
   \<and> Data_init example_fs ''loose.csv'' = Inr loose_data
   \<and> map f_abs (elems (sdata loose_data)) = [- 1, 4]
   \<and> split_on (CHR '','') ''1,2,3,x,y'' = [''1'', ''2'', ''3'', ''x'', ''y'']
   \<and> split_on (CHR '','') ''4,5,6,z,w'' = [''4'', ''5'', ''6'', ''z'', ''w'']
   \<and> Data_init example_fs ''five.csv'' = Inr five_data
   \<and> long_lines ! 2 = []
   \<and> long_lines ! 5 = ''# 1,2,3,f''
   \<and> Data_init example_fs ''long.csv'' = Inr long_data"
proof (intro conjI)
  show "split_on (CHR '','') ''x,2,3,u'' = [''x'', ''2'', ''3'', ''u'']" by code_simp
  show "decimal_int ''x'' = None" by code_simp
  show "np_int64 ''x'' = Inl ValueError" by code_simp
  show "Data_init example_fs ''loose.csv'' = Inr loose_data" by code_simp
  show "map f_abs (elems (sdata loose_data)) = [- 1, 4]" by (simp add: loose_data_def)
  show "split_on (CHR '','') ''1,2,3,x,y'' = [''1'', ''2'', ''3'', ''x'', ''y'']" by code_simp
  show "split_on (CHR '','') ''4,5,6,z,w'' = [''4'', ''5'', ''6'', ''z'', ''w'']" by code_simp
  show "Data_init example_fs ''five.csv'' = Inr five_data" by code_simp
  show "long_lines ! 2 = []" by (simp add: long_lines_def)
  show "long_lines ! 5 = ''# 1,2,3,f''" by (simp add: long_lines_def)
  show "Data_init example_fs ''long.csv'' = Inr long_data" by code_simp
qed

text \<open>
  Claim C3, as the code has it. The data lines are the lines after the header that
  have content once the comment and the blanks at both ends are dropped. The load
  fails with a \<^verbatim>\<open>ValueError\<close> when some data line has another number of fields than
  the first data line; it fails when some data line has fewer than four fields; and it
  fails when one of the first three fields of some data line is a decimal integer
  outside the range of 64 bits. A failed load returns an error and no object.
\<close>

theorem load_fails_on_bad_rows:
  assumes "fs fname = Some lines"
  shows "((\<exists>l \<in> set (data_lines lines).
             commas (content l) \<noteq> commas (content (hd (data_lines lines))))
          \<longrightarrow> Data_init fs fname = Inl ValueError)
     \<and> ((\<exists>l \<in> set (data_lines lines). commas (content l) < 3)
          \<longrightarrow> (\<exists>e. Data_init fs fname = Inl e))
     \<and> ((\<exists>l \<in> set (data_lines lines). \<exists>i < 3. \<exists>v.
             i \<le> commas (content l) \<and> decimal_int (nth_field i (content l)) = Some v
             \<and> \<not> in_int64 v)
          \<longrightarrow> (\<exists>e. Data_init fs fname = Inl e))"
proof (intro conjI impI)
  note G = genfromtxt_rows [of fs fname lines, OF assms]
  assume "\<exists>l \<in> set (data_lines lines).
      commas (content l) \<noteq> commas (content (hd (data_lines lines)))"
  then obtain l where l: "l \<in> set (data_lines lines)"
    and ne: "commas (content l) \<noteq> commas (content (hd (data_lines lines)))" by blast
  from l have nonempty: "data_lines lines \<noteq> []" by auto
  then have h: "hd (data_lines lines) \<in> set (data_lines lines)" by simp
  have ll: "length (delimited_splitter l) = Suc (commas (content l))"
    using data_lines_content [OF l] by (rule length_delimited_splitter)
  have lh: "length (delimited_splitter (hd (data_lines lines))) =
      Suc (commas (content (hd (data_lines lines))))"
    using data_lines_content [OF h] by (rule length_delimited_splitter)
  have hd_eq: "hd (data_rows lines) = delimited_splitter (hd (data_lines lines))"
    unfolding data_rows_lines using nonempty by (rule hd_map)
  have mem: "delimited_splitter l \<in> set (data_rows lines)"
    unfolding data_rows_lines using l by simp
  have "length (delimited_splitter l) \<noteq> length (hd (data_rows lines))"
    unfolding hd_eq ll lh using ne by simp
  with mem have "\<exists>r \<in> set (data_rows lines). length r \<noteq> length (hd (data_rows lines))"
    by (rule bexI [rotated])
  then have "genfromtxt fs fname = Inl ValueError"
    unfolding G by (rule if_P)
  then show "Data_init fs fname = Inl ValueError"
    by (simp add: Data_init_genfromtxt)
next
  assume "\<exists>l \<in> set (data_lines lines). commas (content l) < 3"
  then obtain l where l: "l \<in> set (data_lines lines)" and short: "commas (content l) < 3"
    by blast
  have len: "length (delimited_splitter l) = Suc (commas (content l))"
    using data_lines_content [OF l] by (rule length_delimited_splitter)
  show "\<exists>e. Data_init fs fname = Inl e"
  proof (cases "Data_init fs fname")
    case (Inl e)
    then show ?thesis by simp
  next
    case (Inr d)
    with assms have "\<exists>x. row_of (delimited_splitter l) = Inr x"
      using l by (rule loaded_line)
    then have "4 \<le> length (delimited_splitter l)" using row_of_Inr by blast
    with len short show ?thesis by simp
  qed
next
  assume "\<exists>l \<in> set (data_lines lines). \<exists>i < 3. \<exists>v.
      i \<le> commas (content l) \<and> decimal_int (nth_field i (content l)) = Some v \<and> \<not> in_int64 v"
  then obtain l i v where l: "l \<in> set (data_lines lines)" and i: "i < 3"
    and ic: "i \<le> commas (content l)"
    and dec: "decimal_int (nth_field i (content l)) = Some v" and out: "\<not> in_int64 v"
    by blast
  have nth: "delimited_splitter l ! i = nth_field i (content l)"
    using data_lines_content [OF l] ic by (rule delimited_splitter_nth)
  have "np_int64 (delimited_splitter l ! i) = Inl OverflowError"
    unfolding nth using np_int64_decimal [OF dec] out by simp
  then have over: "loose_call I8 (delimited_splitter l ! i) = Inl OverflowError"
    by (rule loose_call_overflow)
  show "\<exists>e. Data_init fs fname = Inl e"
  proof (cases "Data_init fs fname")
    case (Inl e)
    then show ?thesis by simp
  next
    case (Inr d)
    with assms have "\<exists>x. row_of (delimited_splitter l) = Inr x"
      using l by (rule loaded_line)
    then obtain x where "row_of (delimited_splitter l) = Inr x" ..
    then have ok: "loose_call I8 (delimited_splitter l ! 0) = Inr (IntV (f_abs x))"
      "loose_call I8 (delimited_splitter l ! 1) = Inr (IntV (f_rel x))"
      "loose_call I8 (delimited_splitter l ! 2) = Inr (IntV (f_del x))"
      using row_of_Inr by blast+
    from i consider "i = 0" | "i = 1" | "i = 2" by linarith
    then have False using ok over by cases simp_all
    then show ?thesis ..
  qed
qed

theorem load_fails_on_bad_rows_witness:
  "example_fs ''short.csv'' = Some short_lines
   \<and> data_lines short_lines = [''1,2,3,x'', ''4,5,6'']
   \<and> commas (content ''1,2,3,x'') = 3
   \<and> commas (content ''4,5,6'') = 2
   \<and> Data_init example_fs ''short.csv'' = Inl ValueError
   \<and> example_fs ''big.csv'' = Some big_lines
   \<and> data_lines big_lines = [''9223372036854775808,2,3,x'']
   \<and> decimal_int (nth_field 0 (content ''9223372036854775808,2,3,x'')) =
       Some 9223372036854775808
   \<and> in_int64 9223372036854775808 = False
   \<and> (\<exists>e. Data_init example_fs ''big.csv'' = Inl e)"
proof -
  have f: "example_fs ''short.csv'' = Some short_lines" by (simp add: example_fs_def)
  have dl: "data_lines short_lines = [''1,2,3,x'', ''4,5,6'']" by code_simp
  have c1: "commas (content ''1,2,3,x'') = 3" by code_simp
  have c2: "commas (content ''4,5,6'') = 2" by code_simp
  have h1: "\<exists>l \<in> set (data_lines short_lines).
      commas (content l) \<noteq> commas (content (hd (data_lines short_lines)))"
    by (simp add: dl c1 c2)
  have r1: "Data_init example_fs ''short.csv'' = Inl ValueError"
    using h1 load_fails_on_bad_rows [of example_fs "''short.csv''" short_lines, OF f]
    by blast
  have g: "example_fs ''big.csv'' = Some big_lines" by (simp add: example_fs_def)
  have bl: "data_lines big_lines = [''9223372036854775808,2,3,x'']"
    by (simp add: data_lines_def big_lines_def content_def rstrip_blanks_def
        without_comment_def is_blank_def)
  have c3: "commas (content ''9223372036854775808,2,3,x'') = 3"
    by (simp add: commas_def content_def rstrip_blanks_def without_comment_def is_blank_def)
  have n0: "nth_field 0 (content ''9223372036854775808,2,3,x'') = ''9223372036854775808''"
    by (simp add: content_def rstrip_blanks_def without_comment_def is_blank_def)
  have dn: "dec_nat ''9223372036854775808'' = 9223372036854775808"
    by (simp add: dec_nat_def digit_pos_def)
  have ad: "all_digits ''9223372036854775808''"
    by (simp add: all_digits_def)
  have d: "decimal_int (nth_field 0 (content ''9223372036854775808,2,3,x'')) =
      Some 9223372036854775808"
    unfolding n0 by (simp add: decimal_int_def ad dn)
  have o: "in_int64 9223372036854775808 = False" by (simp add: in_int64_def)
  have h3: "\<exists>l \<in> set (data_lines big_lines). \<exists>i < 3. \<exists>v.
      i \<le> commas (content l) \<and> decimal_int (nth_field i (content l)) = Some v
      \<and> \<not> in_int64 v"
  proof -
    have "(0::nat) < 3 \<and> 0 \<le> commas (content ''9223372036854775808,2,3,x'')
        \<and> decimal_int (nth_field 0 (content ''9223372036854775808,2,3,x'')) =
            Some 9223372036854775808
        \<and> \<not> in_int64 9223372036854775808"
      using d o by simp
    then show ?thesis unfolding bl by (intro bexI [of _ "''9223372036854775808,2,3,x''"] exI [of _ "0::nat"] exI [of _ "9223372036854775808::int"]) simp_all
  qed
  have r3: "\<exists>e. Data_init example_fs ''big.csv'' = Inl e"
    using h3 load_fails_on_bad_rows [of example_fs "''big.csv''" big_lines, OF g]
    by blast
  show ?thesis using f dl c1 c2 r1 g bl d o r3 by blast
qed

section \<open>The stored tag\<close>

lemma list_all2_map_eq:
  "list_all2 (\<lambda>r x. f x = g r) rows xs \<Longrightarrow> map f xs = map g rows"
  by (induction rule: list_all2_induct) simp_all

text \<open>
  The tag is not always the fourth field of the line as it stands: in \<^verbatim>\<open>tags.csv\<close> the
  field \<^verbatim>\<open>a#b\<close> is stored as \<open>a\<close>, and the field \<^verbatim>\<open>cd\<close> followed by two blanks is
  stored as \<open>cd\<close>.
\<close>

theorem tags_taken_from_lines:
  "Data_init example_fs ''tags.csv'' = Inr tags_data
   \<and> split_on (CHR '','') ''1,2,3,a#b'' = [''1'', ''2'', ''3'', ''a#b'']
   \<and> split_on (CHR '','') ''4,5,6,cd  '' = [''4'', ''5'', ''6'', ''cd  '']
   \<and> map f_tag (elems (sdata tags_data)) = [''a'', ''cd'']"
proof (intro conjI)
  show "Data_init example_fs ''tags.csv'' = Inr tags_data" by code_simp
  show "split_on (CHR '','') ''1,2,3,a#b'' = [''1'', ''2'', ''3'', ''a#b'']" by code_simp
  show "split_on (CHR '','') ''4,5,6,cd  '' = [''4'', ''5'', ''6'', ''cd  '']" by code_simp
  show "map f_tag (elems (sdata tags_data)) = [''a'', ''cd'']" by (simp add: tags_data_def)
qed

text \<open>
  Claim C6, as the code has it. The records of a loaded file are its data lines, in
  their order: the lines after the header that have content once the comment (the text
  from the first \<^verbatim>\<open>#\<close> on) and the blanks, CR and LF at both ends are dropped. Every
  data line has at least three commas, and the tag of its record is the fourth field of
  that content, cut to its first 25 characters and then without NUL characters at its
  end.
\<close>

theorem stored_tag:
  assumes "fs fname = Some lines" and "Data_init fs fname = Inr d"
  shows "(\<forall>l \<in> set (data_lines lines). 3 \<le> commas (content l))
     \<and> map f_tag (elems (sdata d)) =
         map (\<lambda>l. rev (dropWhile (\<lambda>c. c = CHR 0x00) (rev (take 25 (nth_field 3 (content l))))))
           (data_lines lines)"
proof
  have rows: "list_all2 (\<lambda>l x. row_of (delimited_splitter l) = Inr x)
      (data_lines lines) (elems (sdata d))"
    using assms by (rule loaded_data_lines)
  have three: "\<And>l. l \<in> set (data_lines lines) \<Longrightarrow> 3 \<le> commas (content l)"
  proof -
    fix l
    assume l: "l \<in> set (data_lines lines)"
    with assms have "\<exists>x. row_of (delimited_splitter l) = Inr x" by (rule loaded_line)
    then have "4 \<le> length (delimited_splitter l)" using row_of_Inr by blast
    moreover have "length (delimited_splitter l) = Suc (commas (content l))"
      using data_lines_content [OF l] by (rule length_delimited_splitter)
    ultimately show "3 \<le> commas (content l)" by simp
  qed
  then show "\<forall>l \<in> set (data_lines lines). 3 \<le> commas (content l)" by blast
  have "list_all2
      (\<lambda>l x. f_tag x =
         rev (dropWhile (\<lambda>c. c = CHR 0x00) (rev (take 25 (nth_field 3 (content l))))))
      (data_lines lines) (elems (sdata d))"
  proof (rule list.rel_mono_strong [OF rows])
    fix l x
    assume l: "l \<in> set (data_lines lines)" and "x \<in> set (elems (sdata d))"
      and r: "row_of (delimited_splitter l) = Inr x"
    have "f_tag x = store_U25 (delimited_splitter l ! 3)"
      using row_of_Inr [OF r] by simp
    also have "delimited_splitter l ! 3 = nth_field 3 (content l)"
      using data_lines_content [OF l] three [OF l] by (rule delimited_splitter_nth)
    finally show "f_tag x =
        rev (dropWhile (\<lambda>c. c = CHR 0x00) (rev (take 25 (nth_field 3 (content l)))))"
      by (simp add: store_U25_def rstrip_nul_def)
  qed
  then show "map f_tag (elems (sdata d)) =
      map (\<lambda>l. rev (dropWhile (\<lambda>c. c = CHR 0x00) (rev (take 25 (nth_field 3 (content l))))))
        (data_lines lines)"
    by (rule list_all2_map_eq)
qed

theorem stored_tag_witness:
  "example_fs ''long.csv'' = Some long_lines
   \<and> Data_init example_fs ''long.csv'' = Inr long_data
   \<and> data_lines long_lines =
       [''1,2,3,abcdefghijklmnopqrstuvwxyz0123'', '' 4,5,6,cd  # note'', ''7,8,9,e'' @ [CHR 0x00]]
   \<and> map f_tag (elems (sdata long_data)) = [''abcdefghijklmnopqrstuvwxy'', ''cd'', ''e'']
   \<and> map (\<lambda>l. rev (dropWhile (\<lambda>c. c = CHR 0x00) (rev (take 25 (nth_field 3 (content l))))))
         (data_lines long_lines) = [''abcdefghijklmnopqrstuvwxy'', ''cd'', ''e'']"
proof -
  have f: "example_fs ''long.csv'' = Some long_lines" by (simp add: example_fs_def)
  have l: "Data_init example_fs ''long.csv'' = Inr long_data" by code_simp
  have dl: "data_lines long_lines =
       [''1,2,3,abcdefghijklmnopqrstuvwxyz0123'', '' 4,5,6,cd  # note'', ''7,8,9,e'' @ [CHR 0x00]]"
    by (simp add: data_lines_def long_lines_def content_def rstrip_blanks_def
        without_comment_def is_blank_def)
  have t: "map f_tag (elems (sdata long_data)) = [''abcdefghijklmnopqrstuvwxy'', ''cd'', ''e'']"
    by (simp add: long_data_def)
  have eq: "map f_tag (elems (sdata long_data)) =
      map (\<lambda>l. rev (dropWhile (\<lambda>c. c = CHR 0x00) (rev (take 25 (nth_field 3 (content l))))))
        (data_lines long_lines)"
    using stored_tag [of example_fs "''long.csv''" long_lines long_data, OF f l]
    by (rule conjunct2)
  have m: "map (\<lambda>l. rev (dropWhile (\<lambda>c. c = CHR 0x00) (rev (take 25 (nth_field 3 (content l))))))
        (data_lines long_lines) = [''abcdefghijklmnopqrstuvwxy'', ''cd'', ''e'']"
    by (simp only: eq [symmetric] t)
  show ?thesis by (intro conjI) (rule f, rule l, rule dl, rule t, rule m)
qed

end
